theory Spec2Isabelle
  imports Main
begin

section \<open>Messages, conversations and usage records\<close>

text \<open>
  The adapters under \<^verbatim>\<open>llms/concrete\<close> work on a conversation object that they mutate
  through \<^verbatim>\<open>add_message\<close> and read through \<^verbatim>\<open>history\<close>. Durations are Python floats; the
  adapters only ever add two of them, so the type of durations is a parameter \<open>'t\<close>.
\<close>

record 't UsageData =
  prompt_tokens :: int
  completion_tokens :: int
  total_tokens :: int
  prompt_time :: 't
  completion_time :: 't
  total_time :: 't

record 't message =
  role :: string
  content :: string
  name :: "string option"
  tool_call_id :: "string option"
  usage :: "'t UsageData option"

type_synonym 't conversation = "'t message list"

text \<open>
  Modelled from the spec: the message classes and the conversation class are imported by
  the adapters but are not part of the sources. Section 3 of the specification gives the
  roles (system, human, assistant, tool) and makes the conversation an append-only
  ordered sequence of messages.
\<close>

definition AgentMessage :: "string \<Rightarrow> 't UsageData option \<Rightarrow> 't message" where
  "AgentMessage c u =
     \<lparr>role = ''assistant'', content = c, name = None, tool_call_id = None, usage = u\<rparr>"

definition FunctionMessage :: "string \<Rightarrow> string \<Rightarrow> string \<Rightarrow> 't message" where
  "FunctionMessage c n i =
     \<lparr>role = ''tool'', content = c, name = Some n, tool_call_id = Some i, usage = None\<rparr>"

definition HumanMessage :: "string \<Rightarrow> 't message" where
  "HumanMessage c =
     \<lparr>role = ''human'', content = c, name = None, tool_call_id = None, usage = None\<rparr>"

definition SystemMessage :: "string \<Rightarrow> 't message" where
  "SystemMessage c =
     \<lparr>role = ''system'', content = c, name = None, tool_call_id = None, usage = None\<rparr>"

definition add_message :: "'t conversation \<Rightarrow> 't message \<Rightarrow> 't conversation" where
  "add_message history m = history @ [m]"

section \<open>CohereModel: message formatting and usage accounting\<close>

text \<open>
  \<^verbatim>\<open>CohereModel._format_messages\<close> walks the history once with three variables: the chat
  history built so far, the system message and the user message. The four branches of its
  \<^verbatim>\<open>if/elif\<close> chain are kept in the order of the source; the third overwrites the
  \<^verbatim>\<open>text\<close> of the last chat entry in place, the fourth appends an entry.
\<close>

record chat_entry =
  entry_user_name :: string
  entry_message :: string
  entry_text :: string

type_synonym format_state = "chat_entry list \<times> string option \<times> string option"

fun format_step :: "format_state \<Rightarrow> 't message \<Rightarrow> format_state" where
  "format_step (chat_history, system_message, user_message) msg =
     (if role msg = ''system'' then (chat_history, Some (content msg), user_message)
      else if role msg = ''human'' then (chat_history, system_message, Some (content msg))
      else if role msg = ''assistant'' \<and> length chat_history > 0 then
        (chat_history[length chat_history - 1 :=
            (last chat_history)\<lparr>entry_text := content msg\<rparr>],
         system_message, user_message)
      else if role msg = ''human'' \<and> user_message \<noteq> Some (content msg) then
        (chat_history @
           [\<lparr>entry_user_name = ''Human'', entry_message = content msg, entry_text = ''''\<rparr>],
         system_message, user_message)
      else (chat_history, system_message, user_message))"

definition cohere_format_messages :: "'t message list \<Rightarrow> format_state" where
  "cohere_format_messages messages =
     (case foldl format_step ([], None, None) messages of
        (chat_history, system_message, user_message) \<Rightarrow>
          (filter (\<lambda>h. entry_text h \<noteq> '''') chat_history, system_message, user_message))"

text \<open>The content of the last message with a given role, if there is one.\<close>

definition latest_content :: "string \<Rightarrow> 't message list \<Rightarrow> string option" where
  "latest_content r messages =
     (let ms = filter (\<lambda>m. role m = r) messages
      in if ms = [] then None else Some (content (last ms)))"

text \<open>
  \<^verbatim>\<open>CohereModel._prepare_usage_data\<close>: the raw usage block is a dictionary from counter
  names to token counts, read with \<^verbatim>\<open>.get(key, 0)\<close>.
\<close>

definition dict_get :: "(string \<rightharpoonup> int) \<Rightarrow> string \<Rightarrow> int \<Rightarrow> int" where
  "dict_get d k dflt = (case d k of None \<Rightarrow> dflt | Some v \<Rightarrow> v)"

definition prepare_usage_data ::
  "(string \<rightharpoonup> int) \<Rightarrow> 't::plus \<Rightarrow> 't \<Rightarrow> 't UsageData" where
  "prepare_usage_data usage_data p_time c_time =
     (let total_time' = p_time + c_time;
          input_tokens = dict_get usage_data ''input_tokens'' 0;
          output_tokens = dict_get usage_data ''output_tokens'' 0;
          total_tokens' = input_tokens + output_tokens
      in \<lparr>prompt_tokens = input_tokens, completion_tokens = output_tokens,
          total_tokens = total_tokens', prompt_time = p_time,
          completion_time = c_time, total_time = total_time'\<rparr>)"

section \<open>Exceptions\<close>

text \<open>
  Every exception the modelled code can raise is a value. A method that mutates the
  conversation and may raise returns a pair: the exception, if one was raised, and the
  conversation as the method left it. \<open>None\<close> in the first component means that the
  method returned normally; its return value is then the conversation itself.
\<close>

datatype error =
    HTTPStatusError
  | KeyError string
  | IndexError
  | AttributeError
  | JSONDecodeError
  | ToolNotFound string
  | ToolRaised string
  | TypeError
  | ValueError string
  | ValidationError string
  | RuntimeError string
  | TimeoutError string

type_synonym 't outcome = "error option \<times> 't conversation"

section \<open>GroqToolModel: the tool-call loop and predict\<close>

text \<open>
  The body of the backend's reply, as \<^verbatim>\<open>predict\<close> reads it:
  \<^verbatim>\<open>tool_response["choices"][0]["message"]\<close> is a dictionary whose keys \<^verbatim>\<open>content\<close> and
  \<^verbatim>\<open>tool_calls\<close> may each be absent (\<open>None\<close>); every tool call has an id, a function name
  and the arguments as JSON text.
\<close>

record tool_call =
  call_id :: string
  function_name :: string
  function_arguments :: string

record response_message =
  msg_content :: "string option"
  msg_tool_calls :: "tool_call list option"

text \<open>
  A tool is a callable of the caller's: applied to the parsed arguments it returns a
  result or raises. \<^verbatim>\<open>json.loads\<close> and \<^verbatim>\<open>json.dumps\<close> belong to the Python library and are
  parameters of the model: \<open>loads\<close> gives \<open>None\<close> where the parser raises
  \<^verbatim>\<open>JSONDecodeError\<close>, \<open>dumps\<close> gives \<open>None\<close> where the result cannot be serialized
  (\<^verbatim>\<open>TypeError\<close>).
\<close>

type_synonym ('a, 'r) tool = "'a \<Rightarrow> error + 'r"
type_synonym ('a, 'r) toolkit = "string \<rightharpoonup> ('a, 'r) tool"

text \<open>
  Modelled from the spec: \<^verbatim>\<open>Toolkit.get_tool_by_name\<close> is called by the adapter but is not
  part of the sources. Section 3 of the specification: a toolkit maps names to tools, and
  the lookup of an absent name fails with \<^verbatim>\<open>ToolNotFound\<close>.
\<close>

definition get_tool_by_name :: "('a, 'r) toolkit \<Rightarrow> string \<Rightarrow> error + ('a, 'r) tool" where
  "get_tool_by_name tools func_name =
     (case tools func_name of None \<Rightarrow> Inl (ToolNotFound func_name) | Some t \<Rightarrow> Inr t)"

text \<open>
  One pass through the body of the loop \<^verbatim>\<open>for tool_call in tool_calls\<close>, up to the
  construction of the function message. The statements run in the order of the source:
  the lookup, the parse of the arguments, the call, the serialization. With no toolkit
  (\<^verbatim>\<open>toolkit=None\<close>) the attribute access itself raises.
\<close>

definition run_tool_call ::
  "(string \<Rightarrow> 'a option) \<Rightarrow> ('r \<Rightarrow> string option) \<Rightarrow> ('a, 'r) toolkit option \<Rightarrow>
   tool_call \<Rightarrow> error + 't message" where
  "run_tool_call loads dumps toolkit tc =
     (let func_name = function_name tc in
      case toolkit of
        None \<Rightarrow> Inl AttributeError
      | Some tools \<Rightarrow>
          (case get_tool_by_name tools func_name of
             Inl e \<Rightarrow> Inl e
           | Inr func_call \<Rightarrow>
               (case loads (function_arguments tc) of
                  None \<Rightarrow> Inl JSONDecodeError
                | Some func_args \<Rightarrow>
                    (case func_call func_args of
                       Inl e \<Rightarrow> Inl e
                     | Inr func_result \<Rightarrow>
                         (case dumps func_result of
                            None \<Rightarrow> Inl TypeError
                          | Some c \<Rightarrow> Inr (FunctionMessage c func_name (call_id tc)))))))"

fun tool_call_loop ::
  "(string \<Rightarrow> 'a option) \<Rightarrow> ('r \<Rightarrow> string option) \<Rightarrow> ('a, 'r) toolkit option \<Rightarrow>
   tool_call list \<Rightarrow> 't conversation \<Rightarrow> 't outcome" where
  "tool_call_loop loads dumps toolkit [] conversation = (None, conversation)"
| "tool_call_loop loads dumps toolkit (tc # rest) conversation =
     (case run_tool_call loads dumps toolkit tc of
        Inl e \<Rightarrow> (Some e, conversation)
      | Inr func_message \<Rightarrow>
          tool_call_loop loads dumps toolkit rest (add_message conversation func_message))"

text \<open>
  \<^verbatim>\<open>GroqToolModel.predict\<close> from the reply on. The HTTP exchange is outside the repository:
  its outcome is the argument \<open>response\<close>, \<open>Inl\<close> when \<^verbatim>\<open>raise_for_status\<close> raises, else
  the list \<^verbatim>\<open>choices\<close> of the reply. \<^verbatim>\<open>apredict\<close> repeats the same statements after its
  own HTTP call.
\<close>

definition handle_tool_response ::
  "(string \<Rightarrow> 'a option) \<Rightarrow> ('r \<Rightarrow> string option) \<Rightarrow> ('a, 'r) toolkit option \<Rightarrow>
   response_message list \<Rightarrow> 't conversation \<Rightarrow> 't outcome" where
  "handle_tool_response loads dumps toolkit choices conversation =
     (case choices of
        [] \<Rightarrow> (Some IndexError, conversation)
      | m # _ \<Rightarrow>
          (let conversation' =
                 (case msg_content m of
                    None \<Rightarrow> conversation
                  | Some c \<Rightarrow> add_message conversation (AgentMessage c None));
               tool_calls = (case msg_tool_calls m of None \<Rightarrow> [] | Some tcs \<Rightarrow> tcs)
           in if tool_calls \<noteq> []
              then tool_call_loop loads dumps toolkit tool_calls conversation'
              else (None, conversation')))"

definition groq_predict ::
  "(string \<Rightarrow> 'a option) \<Rightarrow> ('r \<Rightarrow> string option) \<Rightarrow> ('a, 'r) toolkit option \<Rightarrow>
   error + response_message list \<Rightarrow> 't conversation \<Rightarrow> 't outcome" where
  "groq_predict loads dumps toolkit response conversation =
     (case response of
        Inl e \<Rightarrow> (Some e, conversation)
      | Inr choices \<Rightarrow> handle_tool_response loads dumps toolkit choices conversation)"

definition groq_apredict ::
  "(string \<Rightarrow> 'a option) \<Rightarrow> ('r \<Rightarrow> string option) \<Rightarrow> ('a, 'r) toolkit option \<Rightarrow>
   error + response_message list \<Rightarrow> 't conversation \<Rightarrow> 't outcome" where
  "groq_apredict loads dumps toolkit response conversation =
     (case response of
        Inl e \<Rightarrow> (Some e, conversation)
      | Inr choices \<Rightarrow> handle_tool_response loads dumps toolkit choices conversation)"

section \<open>CohereModel: predict\<close>

text \<open>
  The reply of the chat endpoint as \<^verbatim>\<open>CohereModel.predict\<close> reads it: \<^verbatim>\<open>data["text"]\<close>
  raises when the key is absent, \<^verbatim>\<open>data.get("usage", {})\<close> does not. The two durations
  are what the timers measured.
\<close>

record cohere_data =
  data_text :: "string option"
  data_usage :: "(string \<rightharpoonup> int) option"

definition cohere_predict ::
  "error + cohere_data \<Rightarrow> 't::plus \<Rightarrow> 't \<Rightarrow> 't conversation \<Rightarrow> 't outcome" where
  "cohere_predict response p_time c_time conversation =
     (case response of
        Inl e \<Rightarrow> (Some e, conversation)
      | Inr data \<Rightarrow>
          (case data_text data of
             None \<Rightarrow> (Some (KeyError ''text''), conversation)
           | Some message_content \<Rightarrow>
               (let usage_data = (case data_usage data of None \<Rightarrow> Map.empty | Some u \<Rightarrow> u);
                    usage' = prepare_usage_data usage_data p_time c_time
                in (None, add_message conversation
                            (AgentMessage message_content (Some usage'))))))"

section \<open>FalAIImgGenModel: polling a queued request\<close>

text \<open>
  The fields of the model that the poller and the constructor read. \<^verbatim>\<open>retry_delay\<close> is a
  Python float that is only handed to \<^verbatim>\<open>sleep\<close>; its type is the parameter \<open>'d\<close>.
\<close>

record 'd FalAIImgGenModel =
  allowed_models :: "string list"
  api_key :: "string option"
  model_name :: string
  max_retries :: int
  retry_delay :: 'd

text \<open>
  What the poller does to the outside, in order: a call of \<^verbatim>\<open>_check_status\<close>, a call of
  \<^verbatim>\<open>_get_result\<close> (each with the request id), a sleep.
\<close>

datatype 'd io_event = CheckStatus string | GetResult string | Sleep 'd

text \<open>
  The queue is outside the repository. \<open>check i\<close> is the outcome of the \<open>i\<close>-th call of
  \<^verbatim>\<open>_check_status\<close> (counting from 0): \<open>Inl\<close> when \<^verbatim>\<open>raise_for_status\<close> raises, else the
  value under the key \<^verbatim>\<open>status\<close> of the reply, \<open>None\<close> when the key is absent. \<open>result\<close> is
  the outcome of \<^verbatim>\<open>_get_result\<close>. The loop \<^verbatim>\<open>for _ in range(self.max_retries)\<close> is the
  recursion on the number of rounds left; \<open>poll\<close> returns the events in order and the value
  returned or the exception raised. The text of the \<^verbatim>\<open>RuntimeError\<close> is shortened to the
  status.
\<close>

definition timeout_message :: "string \<Rightarrow> string" where
  "timeout_message request_id =
     ''Request '' @ request_id @ '' did not complete within the timeout period''"

fun poll ::
  "(nat \<Rightarrow> error + string option) \<Rightarrow> error + 'r \<Rightarrow> string \<Rightarrow> 'd \<Rightarrow> nat \<Rightarrow> nat \<Rightarrow>
   'd io_event list \<times> (error + 'r)" where
  "poll check result request_id delay 0 i =
     ([], Inl (TimeoutError (timeout_message request_id)))"
| "poll check result request_id delay (Suc n) i =
     (case check i of
        Inl e \<Rightarrow> ([CheckStatus request_id], Inl e)
      | Inr None \<Rightarrow> ([CheckStatus request_id], Inl (KeyError ''status''))
      | Inr (Some status) \<Rightarrow>
          if status = ''COMPLETED'' then
            ([CheckStatus request_id, GetResult request_id], result)
          else if status \<in> set [''IN_QUEUE'', ''IN_PROGRESS''] then
            (case poll check result request_id delay n (Suc i) of
               (events, out) \<Rightarrow> (CheckStatus request_id # Sleep delay # events, out))
          else ([CheckStatus request_id], Inl (RuntimeError status)))"

definition wait_for_completion ::
  "'d FalAIImgGenModel \<Rightarrow> (nat \<Rightarrow> error + string option) \<Rightarrow> error + 'r \<Rightarrow> string \<Rightarrow>
   'd io_event list \<times> (error + 'r)" where
  "wait_for_completion self check result request_id =
     poll check result request_id (retry_delay self) (nat (max_retries self)) 0"

text \<open>
  \<^verbatim>\<open>_async_wait_for_completion\<close> is the same loop over the asynchronous client, with
  \<^verbatim>\<open>asyncio.sleep\<close> for \<^verbatim>\<open>time.sleep\<close>.
\<close>

definition async_wait_for_completion ::
  "'d FalAIImgGenModel \<Rightarrow> (nat \<Rightarrow> error + string option) \<Rightarrow> error + 'r \<Rightarrow> string \<Rightarrow>
   'd io_event list \<times> (error + 'r)" where
  "async_wait_for_completion self check result request_id =
     poll check result request_id (retry_delay self) (nat (max_retries self)) 0"

section \<open>Observations on a run of the poller\<close>

text \<open>
  A reply of the status endpoint is non-terminal when its status is \<^verbatim>\<open>IN_QUEUE\<close> or
  \<^verbatim>\<open>IN_PROGRESS\<close>. The other two definitions count the status checks and the fetches of the
  result among the events of a run.
\<close>

definition non_terminal :: "error + string option \<Rightarrow> bool" where
  "non_terminal reply \<longleftrightarrow>
     reply = Inr (Some ''IN_QUEUE'') \<or> reply = Inr (Some ''IN_PROGRESS'')"

definition status_checks :: "'d io_event list \<Rightarrow> nat" where
  "status_checks events =
     length (filter (\<lambda>e. case e of CheckStatus _ \<Rightarrow> True | _ \<Rightarrow> False) events)"

definition result_fetches :: "'d io_event list \<Rightarrow> nat" where
  "result_fetches events =
     length (filter (\<lambda>e. case e of GetResult _ \<Rightarrow> True | _ \<Rightarrow> False) events)"

section \<open>Construction of the adapters\<close>

text \<open>
  \<^verbatim>\<open>LLMBase._validate_name_in_allowed_models\<close> runs after the fields are set. \<^verbatim>\<open>name\<close> may
  be \<^verbatim>\<open>None\<close>; the test \<^verbatim>\<open>if name and ...\<close> lets \<^verbatim>\<open>None\<close> and the empty string through.
\<close>

definition validate_name_in_allowed_models :: "string option \<Rightarrow> string list \<Rightarrow> error + unit" where
  "validate_name_in_allowed_models llm_name allowed =
     (case llm_name of
        None \<Rightarrow> Inr ()
      | Some n \<Rightarrow>
          if n \<noteq> '''' \<and> n \<notin> set allowed
          then Inl (ValueError (''Model name '' @ n @ '' is not allowed.''))
          else Inr ())"

text \<open>
  The keyword arguments of a constructor call; \<open>None\<close> is an argument that the caller did
  not pass. The classes are pydantic models: a field declared without a default
  (\<^verbatim>\<open>api_key: str\<close> in \<^verbatim>\<open>CohereModel\<close> and \<^verbatim>\<open>GroqToolModel\<close>) is required and its absence is
  a validation error; a field with a default takes the default, which is not validated.
\<close>

record 'd init_args =
  arg_api_key :: "string option"
  arg_name :: "string option"
  arg_allowed_models :: "string list option"
  arg_model_name :: "string option"
  arg_max_retries :: "int option"
  arg_retry_delay :: "'d option"

record llm =
  llm_api_key :: string
  llm_allowed_models :: "string list"
  llm_name :: string
  llm_headers :: "(string \<times> string) list"



definition fal_allowed_models :: "string list" where
  "fal_allowed_models = [''fal-ai/flux-pro'', ''fal-ai/flux-pro/new'', ''fal-ai/flux-pro/v1.1'']"



text \<open>
  \<^verbatim>\<open>FalAIImgGenModel.__init__\<close>. The key defaults to the environment variable
  \<^verbatim>\<open>FAL_KEY\<close> (\<open>env_key\<close>, \<open>None\<close> when it is not set); \<^verbatim>\<open>name\<close> is not declared by the class
  and is \<^verbatim>\<open>None\<close> unless passed. After the validation of the base class the constructor
  writes a key that is set back to the environment, checks \<^verbatim>\<open>model_name\<close> and builds the
  clients. The result is the model, or the exception raised, and the value of \<^verbatim>\<open>FAL_KEY\<close>
  afterwards.
\<close>

definition fal_init ::
  "string option \<Rightarrow> ('d::one) init_args \<Rightarrow> (error + 'd FalAIImgGenModel) \<times> string option" where
  "fal_init env_key args =
     (let allowed = (case arg_allowed_models args of
                       None \<Rightarrow> fal_allowed_models | Some ms \<Rightarrow> ms);
          key = (case arg_api_key args of None \<Rightarrow> env_key | Some k \<Rightarrow> Some k);
          mname = (case arg_model_name args of None \<Rightarrow> ''fal-ai/flux-pro'' | Some m \<Rightarrow> m);
          retries = (case arg_max_retries args of None \<Rightarrow> 60 | Some n \<Rightarrow> n);
          delay = (case arg_retry_delay args of None \<Rightarrow> 1 | Some d \<Rightarrow> d)
      in case validate_name_in_allowed_models (arg_name args) allowed of
           Inl e \<Rightarrow> (Inl e, env_key)
         | Inr _ \<Rightarrow>
             (let env_key' = (if key \<noteq> None \<and> key \<noteq> Some '''' then key else env_key)
              in if mname \<notin> set allowed
                 then (Inl (ValueError ''Invalid model name.''), env_key')
                 else (Inr \<lparr>allowed_models = allowed, api_key = key, model_name = mname,
                            max_retries = retries, retry_delay = delay\<rparr>, env_key')))"

section \<open>Streaming\<close>

text \<open>
  Python's \<^verbatim>\<open>str.replace(old, new)\<close>: every occurrence of \<open>old\<close>, found from left to right
  without overlap, becomes \<open>new\<close>; an empty \<open>old\<close> matches before every character and at
  the end.
\<close>

function str_replace :: "string \<Rightarrow> string \<Rightarrow> string \<Rightarrow> string" where
  "str_replace old new s =
     (if old = [] then new @ concat (map (\<lambda>c. c # new) s)
      else if s = [] then []
      else if take (length old) s = old
        then new @ str_replace old new (drop (length old) s)
      else hd s # str_replace old new (tl s))"
  by pat_completeness auto
termination
  by (relation "measure (\<lambda>(old, new, s). length s)") auto

declare str_replace.simps [simp del]

text \<open>
  A generator that is run to its end is modelled by what it did: the fragments it yielded,
  in order; the exception that ended it, if one did; and the conversation it left.
\<close>

type_synonym 't streamed = "string list \<times> error option \<times> 't conversation"

text \<open>
  A parsed line of the Groq stream, as \<^verbatim>\<open>GroqToolModel.stream\<close> reads it:
  \<^verbatim>\<open>chunk["choices"][0]["delta"]\<close> is a dictionary, here the list of its items, that is
  tested for emptiness and then read at \<^verbatim>\<open>content\<close>. The parser \<open>loads\<close> gives \<open>None\<close> where
  \<^verbatim>\<open>json.loads\<close> raises \<^verbatim>\<open>JSONDecodeError\<close>; a line that parses is taken to have this
  shape.
\<close>

record groq_chunk =
  chunk_choices :: "(string \<times> string) list list"

text \<open>
  The loop over \<^verbatim>\<open>response.iter_lines\<close> with its \<^verbatim>\<open>try\<close> and
  \<^verbatim>\<open>except json.JSONDecodeError: pass\<close>. The result is the fragments yielded, the exception
  that left the loop, and \<^verbatim>\<open>message_content\<close>.
\<close>

fun groq_stream_lines ::
  "(string \<Rightarrow> groq_chunk option) \<Rightarrow> string list \<Rightarrow> string \<Rightarrow>
   string list \<times> error option \<times> string" where
  "groq_stream_lines loads [] message_content = ([], None, message_content)"
| "groq_stream_lines loads (line # rest) message_content =
     (if str_replace ''data: '' '''' line = '''' then
        groq_stream_lines loads rest message_content
      else
        (case loads (str_replace ''data: '' '''' line) of
           None \<Rightarrow> groq_stream_lines loads rest message_content
         | Some chunk \<Rightarrow>
             (case chunk_choices chunk of
                [] \<Rightarrow> ([], Some IndexError, message_content)
              | delta # _ \<Rightarrow>
                  if delta \<noteq> [] then
                    (case map_of delta ''content'' of
                       None \<Rightarrow> ([], Some (KeyError ''content''), message_content)
                     | Some d \<Rightarrow>
                         (case groq_stream_lines loads rest (message_content @ d) of
                            (yielded, out) \<Rightarrow> (d # yielded, out)))
                  else groq_stream_lines loads rest message_content)))"

text \<open>
  \<^verbatim>\<open>GroqToolModel.stream\<close>: the first reply is handled by the statements of \<^verbatim>\<open>predict\<close>,
  repeated in the source, then the second
  request is streamed; \<open>response2\<close> is \<open>Inl\<close> when its \<^verbatim>\<open>raise_for_status\<close> raises, else
  the lines of its body. The assistant message is appended after the loop.
\<close>

definition groq_stream ::
  "(string \<Rightarrow> 'a option) \<Rightarrow> ('r \<Rightarrow> string option) \<Rightarrow> ('a, 'r) toolkit option \<Rightarrow>
   error + response_message list \<Rightarrow> (string \<Rightarrow> groq_chunk option) \<Rightarrow>
   error + string list \<Rightarrow> 't conversation \<Rightarrow> 't streamed" where
  "groq_stream loads dumps toolkit response chunk_loads response2 conversation =
     (case response of
        Inl e \<Rightarrow> ([], Some e, conversation)
      | Inr choices \<Rightarrow>
          (case handle_tool_response loads dumps toolkit choices conversation of
             (Some e, conversation') \<Rightarrow> ([], Some e, conversation')
           | (None, conversation') \<Rightarrow>
               (case response2 of
                  Inl e \<Rightarrow> ([], Some e, conversation')
                | Inr lines \<Rightarrow>
                    (case groq_stream_lines chunk_loads lines '''' of
                       (yielded, Some e, message_content) \<Rightarrow>
                         (yielded, Some e, conversation')
                     | (yielded, None, message_content) \<Rightarrow>
                         (yielded, None,
                          add_message conversation' (AgentMessage message_content None))))))"

text \<open>
  A parsed line of the Cohere stream: a dictionary that may have the key \<^verbatim>\<open>text\<close> and the
  key \<^verbatim>\<open>usage\<close>. The loop of \<^verbatim>\<open>CohereModel.stream\<close> calls \<^verbatim>\<open>json.loads\<close> on every non-empty
  line, outside any \<^verbatim>\<open>try\<close>. The result is the fragments yielded, the exception that left
  the loop, \<^verbatim>\<open>collected_content\<close> and \<^verbatim>\<open>usage_data\<close>.
\<close>

record cohere_chunk =
  chunk_text :: "string option"
  chunk_usage :: "(string \<rightharpoonup> int) option"

fun cohere_stream_lines ::
  "(string \<Rightarrow> cohere_chunk option) \<Rightarrow> string list \<Rightarrow> string list \<Rightarrow> (string \<rightharpoonup> int) \<Rightarrow>
   string list \<times> error option \<times> string list \<times> (string \<rightharpoonup> int)" where
  "cohere_stream_lines loads [] collected_content usage_data =
     ([], None, collected_content, usage_data)"
| "cohere_stream_lines loads (line # rest) collected_content usage_data =
     (if line \<noteq> '''' then
        (case loads line of
           None \<Rightarrow> ([], Some JSONDecodeError, collected_content, usage_data)
         | Some chunk \<Rightarrow>
             (case chunk_text chunk of
                Some c \<Rightarrow>
                  (case cohere_stream_lines loads rest (collected_content @ [c]) usage_data of
                     (yielded, out) \<Rightarrow> (c # yielded, out))
              | None \<Rightarrow>
                  (case chunk_usage chunk of
                     Some u \<Rightarrow> cohere_stream_lines loads rest collected_content u
                   | None \<Rightarrow> cohere_stream_lines loads rest collected_content usage_data)))
      else cohere_stream_lines loads rest collected_content usage_data)"

definition cohere_stream ::
  "(string \<Rightarrow> cohere_chunk option) \<Rightarrow> error + string list \<Rightarrow> 't::plus \<Rightarrow> 't \<Rightarrow>
   't conversation \<Rightarrow> 't streamed" where
  "cohere_stream loads response p_time c_time conversation =
     (case response of
        Inl e \<Rightarrow> ([], Some e, conversation)
      | Inr lines \<Rightarrow>
          (case cohere_stream_lines loads lines [] Map.empty of
             (yielded, Some e, collected_content, usage_data) \<Rightarrow> (yielded, Some e, conversation)
           | (yielded, None, collected_content, usage_data) \<Rightarrow>
               (yielded, None,
                add_message conversation
                  (AgentMessage (concat collected_content)
                     (Some (prepare_usage_data usage_data p_time c_time))))))"

text \<open>
  A line is malformed for a parser when it is not empty and the parser raises on it. For
  the Groq stream the text handed to the parser is the line without its \<^verbatim>\<open>data: \<close> marks.
\<close>

definition malformed :: "(string \<Rightarrow> 'c option) \<Rightarrow> string \<Rightarrow> bool" where
  "malformed loads json_str \<longleftrightarrow> json_str \<noteq> '''' \<and> loads json_str = None"

section \<open>abatch: tasks behind a semaphore, gathered\<close>

text \<open>
  \<^verbatim>\<open>CohereModel.apredict\<close> after the HTTP call: a status other than 200 raises, then the
  statements are those of \<^verbatim>\<open>predict\<close>.
\<close>

definition cohere_apredict ::
  "error + cohere_data \<Rightarrow> 't::plus \<Rightarrow> 't \<Rightarrow> 't conversation \<Rightarrow> 't outcome" where
  "cohere_apredict response p_time c_time conversation =
     (case response of
        Inl e \<Rightarrow> (Some e, conversation)
      | Inr data \<Rightarrow>
          (case data_text data of
             None \<Rightarrow> (Some (KeyError ''text''), conversation)
           | Some message_content \<Rightarrow>
               (let usage_data = (case data_usage data of None \<Rightarrow> Map.empty | Some u \<Rightarrow> u);
                    usage' = prepare_usage_data usage_data p_time c_time
                in (None, add_message conversation
                            (AgentMessage message_content (Some usage'))))))"

text \<open>
  \<^verbatim>\<open>abatch\<close> creates one semaphore with \<^verbatim>\<open>max_concurrent\<close> slots and one task per
  conversation; each task is
  \<^verbatim>\<open>async with semaphore: return await self.apredict(conv, ...)\<close>, and the tasks are handed
  to \<^verbatim>\<open>asyncio.gather\<close>. The event loop interleaves the tasks, so \<^verbatim>\<open>abatch\<close> is modelled by
  its steps. A task waits for a slot, is in flight (inside \<^verbatim>\<open>apredict\<close>), or has left the
  \<^verbatim>\<open>async with\<close> block by returning a conversation or by raising.
\<close>

datatype 'c task = Waiting | InFlight | Returned 'c | Raised error

record 'c batch =
  sem_value :: nat
  tasks :: "'c task list"
  first_raised :: "error option"

text \<open>
  What the event loop can do next: let task \<open>i\<close> enter the block (\<^verbatim>\<open>Acquire\<close>), or let the
  call of task \<open>i\<close> finish and the task leave the block (\<^verbatim>\<open>Finish\<close>).
\<close>

datatype sched_event = Acquire nat | Finish nat

text \<open>
  \<^verbatim>\<open>asyncio.Semaphore(max_concurrent)\<close> raises for a negative value. Otherwise all tasks
  wait and every slot is free.
\<close>

definition abatch_start :: "int \<Rightarrow> 'c list \<Rightarrow> error + 'c batch" where
  "abatch_start max_concurrent conversations =
     (if max_concurrent < 0
      then Inl (ValueError ''Semaphore initial value must be >= 0'')
      else Inr \<lparr>sem_value = nat max_concurrent,
                tasks = map (\<lambda>_. Waiting) conversations,
                first_raised = None\<rparr>)"

text \<open>
  One step. A waiting task enters only when the semaphore has a free slot, and takes it.
  \<open>apredict i\<close> is the call that task \<open>i\<close> makes, with the reply the backend gives to it;
  when it finishes, by returning or by raising, the \<^verbatim>\<open>async with\<close> block is left and the
  slot is given back. \<open>first_raised\<close> keeps the first exception, which is what \<^verbatim>\<open>gather\<close>
  raises. A step that is not enabled gives \<open>None\<close>.
\<close>

fun abatch_step ::
  "(nat \<Rightarrow> 'c \<Rightarrow> error + 'c) \<Rightarrow> 'c list \<Rightarrow> 'c batch \<Rightarrow> sched_event \<Rightarrow> 'c batch option" where
  "abatch_step apredict conversations s (Acquire i) =
     (if i < length (tasks s) \<and> tasks s ! i = Waiting \<and> 0 < sem_value s
      then Some (s\<lparr>sem_value := sem_value s - 1, tasks := (tasks s)[i := InFlight]\<rparr>)
      else None)"
| "abatch_step apredict conversations s (Finish i) =
     (if i < length (tasks s) \<and> i < length conversations \<and> tasks s ! i = InFlight
      then (case apredict i (conversations ! i) of
              Inr c \<Rightarrow>
                Some (s\<lparr>sem_value := sem_value s + 1, tasks := (tasks s)[i := Returned c]\<rparr>)
            | Inl e \<Rightarrow>
                Some (s\<lparr>sem_value := sem_value s + 1, tasks := (tasks s)[i := Raised e],
                        first_raised :=
                          (case first_raised s of None \<Rightarrow> Some e | Some e' \<Rightarrow> Some e')\<rparr>))
      else None)"

fun abatch_run ::
  "(nat \<Rightarrow> 'c \<Rightarrow> error + 'c) \<Rightarrow> 'c list \<Rightarrow> 'c batch \<Rightarrow> sched_event list \<Rightarrow>
   'c batch option" where
  "abatch_run apredict conversations s [] = Some s"
| "abatch_run apredict conversations s (ev # evs) =
     (case abatch_step apredict conversations s ev of
        None \<Rightarrow> None
      | Some s' \<Rightarrow> abatch_run apredict conversations s' evs)"

text \<open>
  \<^verbatim>\<open>asyncio.gather\<close>: it raises the first exception that a task raised; when every task has
  returned it returns their results in the order of the tasks; until then it waits
  (\<open>None\<close>).
\<close>

fun returned :: "'c task \<Rightarrow> 'c option" where
  "returned (Returned c) = Some c"
| "returned _ = None"

definition gather :: "'c batch \<Rightarrow> (error + 'c list) option" where
  "gather s =
     (case first_raised s of
        Some e \<Rightarrow> Some (Inl e)
      | None \<Rightarrow> map_option Inr (those (map returned (tasks s))))"

text \<open>The number of calls in flight, and whether a task still has to run.\<close>

definition in_flight :: "'c batch \<Rightarrow> nat" where
  "in_flight s =
     length (filter (\<lambda>t. case t of InFlight \<Rightarrow> True | _ \<Rightarrow> False) (tasks s))"

fun pending :: "'c task \<Rightarrow> bool" where
  "pending Waiting = True"
| "pending InFlight = True"
| "pending _ = False"

text \<open>
  The call of task \<open>i\<close> of a Cohere batch: \<^verbatim>\<open>apredict\<close> on the reply and the durations that
  the task meets; it returns the conversation or raises.
\<close>

definition cohere_abatch_call ::
  "(nat \<Rightarrow> error + cohere_data) \<Rightarrow> (nat \<Rightarrow> 't::plus) \<Rightarrow> (nat \<Rightarrow> 't) \<Rightarrow> nat \<Rightarrow>
   't conversation \<Rightarrow> error + 't conversation" where
  "cohere_abatch_call responses p_times c_times i conversation =
     (case cohere_apredict (responses i) (p_times i) (c_times i) conversation of
        (None, conversation') \<Rightarrow> Inr conversation'
      | (Some e, conversation') \<Rightarrow> Inl e)"

text \<open>
  Two observations on a state of a batch. The steps still to come: two for a waiting task,
  one for a task in flight. And the agreement of the state with the calls: a task that
  returned holds what its call returns, a task that raised holds what its call raises, and
  the first exception recorded is one that a call raises.
\<close>

definition steps_left :: "'c batch \<Rightarrow> nat" where
  "steps_left s =
     2 * length (filter (\<lambda>t. case t of Waiting \<Rightarrow> True | _ \<Rightarrow> False) (tasks s)) +
     length (filter (\<lambda>t. case t of InFlight \<Rightarrow> True | _ \<Rightarrow> False) (tasks s))"

definition agrees :: "(nat \<Rightarrow> 'c \<Rightarrow> error + 'c) \<Rightarrow> 'c list \<Rightarrow> 'c batch \<Rightarrow> bool" where
  "agrees apredict conversations s \<longleftrightarrow>
     length (tasks s) = length conversations
     \<and> (\<forall>i<length conversations.
          case tasks s ! i of
            Returned c \<Rightarrow> apredict i (conversations ! i) = Inr c
          | Raised e \<Rightarrow> apredict i (conversations ! i) = Inl e
          | _ \<Rightarrow> True)
     \<and> (case first_raised s of
          None \<Rightarrow> True
        | Some e \<Rightarrow> \<exists>i<length conversations. apredict i (conversations ! i) = Inl e)"

section \<open>Concrete inputs\<close>

text \<open>
  A toolkit with the one tool \<^verbatim>\<open>add\<close>, and stand-ins for the JSON parser and serializer
  that know the texts used below.
\<close>

definition example_loads :: \<open>string \<Rightarrow> (int \<times> int) option\<close> where
  \<open>example_loads s = (if s = ''{"a": 1, "b": 2}'' then Some (1, 2) else None)\<close>

definition example_dumps :: "int \<Rightarrow> string option" where
  "example_dumps n = (if n = 3 then Some ''3'' else None)"

definition add_tool :: "(int \<times> int, int) tool" where
  "add_tool args = (case args of (x, y) \<Rightarrow> Inr (x + y))"

definition failing_tool :: "(int \<times> int, int) tool" where
  "failing_tool args = Inl (ToolRaised ''boom'')"

definition example_toolkit :: "(int \<times> int, int) toolkit" where
  "example_toolkit = [''add'' \<mapsto> add_tool, ''boom'' \<mapsto> failing_tool]"

definition add_call :: \<open>string \<Rightarrow> tool_call\<close> where
  \<open>add_call i =
     \<lparr>call_id = i, function_name = ''add'', function_arguments = ''{"a": 1, "b": 2}''\<rparr>\<close>

definition missing_call :: "tool_call" where
  "missing_call =
     \<lparr>call_id = ''call_x'', function_name = ''missing'', function_arguments = ''{}''\<rparr>"

text \<open>
  A model with three retries and no delay, a queue that never gets past
  \<^verbatim>\<open>IN_PROGRESS\<close>, and one that completes at the third status check.
\<close>

definition three_retries :: "int FalAIImgGenModel" where
  "three_retries =
     \<lparr>allowed_models = fal_allowed_models, api_key = Some ''key'',
      model_name = ''fal-ai/flux-pro'', max_retries = 3, retry_delay = 0\<rparr>"

definition never_completes :: "nat \<Rightarrow> error + string option" where
  "never_completes i = Inr (Some ''IN_PROGRESS'')"

definition completes_third :: "nat \<Rightarrow> error + string option" where
  "completes_third i = (if i < 2 then Inr (Some ''IN_PROGRESS'') else Inr (Some ''COMPLETED''))"

text \<open>Constructor calls: no argument at all, and a key with an empty model name.\<close>

definition no_arguments :: "int init_args" where
  "no_arguments =
     \<lparr>arg_api_key = None, arg_name = None, arg_allowed_models = None,
      arg_model_name = None, arg_max_retries = None, arg_retry_delay = None\<rparr>"



text \<open>
  Stand-ins for the parser on the lines of the two streams below; every other text is
  not JSON.
\<close>

definition cohere_loads :: \<open>string \<Rightarrow> cohere_chunk option\<close> where
  \<open>cohere_loads s =
     (if s = ''{"text": "Hel"}'' then Some \<lparr>chunk_text = Some ''Hel'', chunk_usage = None\<rparr>
      else if s = ''{"text": "lo"}'' then Some \<lparr>chunk_text = Some ''lo'', chunk_usage = None\<rparr>
      else None)\<close>

definition cohere_lines :: \<open>string list\<close> where
  \<open>cohere_lines = [''{"text": "Hel"}'', ''not json'', ''{"text": "lo"}'']\<close>

definition groq_loads :: \<open>string \<Rightarrow> groq_chunk option\<close> where
  \<open>groq_loads s =
     (if s = ''{"choices": [{"delta": {"content": "Hel"}}]}''
        then Some \<lparr>chunk_choices = [[(''content'', ''Hel'')]]\<rparr>
      else if s = ''{"choices": [{"delta": {"content": "lo"}}]}''
        then Some \<lparr>chunk_choices = [[(''content'', ''lo'')]]\<rparr>
      else None)\<close>

definition groq_lines :: \<open>string list\<close> where
  \<open>groq_lines =
     [''data: {"choices": [{"delta": {"content": "Hel"}}]}'', ''data: not json'',
      ''data: {"choices": [{"delta": {"content": "lo"}}]}'', ''data: [DONE]'']\<close>

text \<open>
  Batches of Cohere conversations: the replies that the tasks meet, all good or the second
  one failing, and timers that measure nothing.
\<close>

definition two_conversations :: "int conversation list" where
  "two_conversations = [[HumanMessage ''a''], [HumanMessage ''b'']]"

definition three_conversations :: "int conversation list" where
  "three_conversations = [[HumanMessage ''a''], [HumanMessage ''b''], [HumanMessage ''c'']]"

definition good_replies :: "nat \<Rightarrow> error + cohere_data" where
  "good_replies i =
     Inr \<lparr>data_text = Some (if i = 0 then ''A'' else ''B''), data_usage = None\<rparr>"

definition second_fails :: "nat \<Rightarrow> error + cohere_data" where
  "second_fails i =
     (if i = 1 then Inl HTTPStatusError
      else Inr \<lparr>data_text = Some ''A'', data_usage = None\<rparr>)"

definition no_time :: "nat \<Rightarrow> int" where
  "no_time i = 0"

definition no_usage :: "int UsageData" where
  "no_usage =
     \<lparr>prompt_tokens = 0, completion_tokens = 0, total_tokens = 0,
      prompt_time = 0, completion_time = 0, total_time = 0\<rparr>"

section \<open>Properties of the Cohere formatting and of the usage accountant\<close>

lemma format_step_chat_history_empty:
  "fst (format_step ([], s, u) msg) = []"
  by simp

lemma foldl_format_step_chat_history:
  "fst (foldl format_step ([], s, u) messages) = []"
proof (induction messages arbitrary: s u)
  case Nil
  show ?case by simp
next
  case (Cons m ms)
  obtain s' u' where step: "format_step ([], s, u) m = ([], s', u')"
    by (cases "format_step ([], s, u) m") (use format_step_chat_history_empty [of s u m] in auto)
  show ?case using Cons.IH [of s' u'] step by simp
qed

lemma foldl_format_step_snoc:
  "foldl format_step st (messages @ [m]) = format_step (foldl format_step st messages) m"
  by simp

lemma latest_content_snoc:
  "latest_content r (messages @ [m]) =
     (if role m = r then Some (content m) else latest_content r messages)"
  by (simp add: latest_content_def Let_def)

lemma foldl_format_step_extracts:
  "foldl format_step ([], None, None) messages =
     ([], latest_content ''system'' messages, latest_content ''human'' messages)"
proof (induction messages rule: rev_induct)
  case Nil
  show ?case by (simp add: latest_content_def)
next
  case (snoc m ms)
  show ?case
    unfolding foldl_format_step_snoc snoc.IH latest_content_snoc
    by simp
qed

lemma cohere_format_messages_example:
  "cohere_format_messages
     [SystemMessage ''be brief'', HumanMessage ''hi'', AgentMessage ''hello'' None,
      HumanMessage ''how are you?'' :: int message] =
   ([], Some ''be brief'', Some ''how are you?'')"
  by (simp add: cohere_format_messages_def SystemMessage_def HumanMessage_def AgentMessage_def)

text \<open>
  Claim C10. For every list of input messages, \<^verbatim>\<open>CohereModel._format_messages\<close> returns an
  empty chat history: the branch that appends a human entry comes after a branch that
  already takes every human message, so the list never grows, the guard on its length in
  the assistant branch never holds, and the closing filter yields the empty list. The
  other two components are the content of the last system message and of the last human
  message.
\<close>

theorem cohere_format_messages_chat_history_empty:
  "cohere_format_messages messages =
     ([], latest_content ''system'' messages, latest_content ''human'' messages)"
  by (simp add: cohere_format_messages_def foldl_format_step_extracts)

text \<open>
  Claim C7. For every raw usage dictionary, with or without the token fields, and every
  pair of elapsed times, the usage record has its total of tokens equal to the sum of the
  prompt and completion tokens and its total time equal to the sum of the two times; a
  missing counter counts as zero, and a total supplied by the backend is not read.
\<close>

theorem prepare_usage_data_totals:
  "total_tokens (prepare_usage_data usage_data p_time c_time) =
     prompt_tokens (prepare_usage_data usage_data p_time c_time) +
     completion_tokens (prepare_usage_data usage_data p_time c_time)
   \<and> total_time (prepare_usage_data usage_data p_time c_time) =
     prompt_time (prepare_usage_data usage_data p_time c_time) +
     completion_time (prepare_usage_data usage_data p_time c_time)
   \<and> prompt_tokens (prepare_usage_data usage_data p_time c_time) =
     (case usage_data ''input_tokens'' of None \<Rightarrow> 0 | Some n \<Rightarrow> n)
   \<and> completion_tokens (prepare_usage_data usage_data p_time c_time) =
     (case usage_data ''output_tokens'' of None \<Rightarrow> 0 | Some n \<Rightarrow> n)
   \<and> prompt_time (prepare_usage_data usage_data p_time c_time) = p_time
   \<and> completion_time (prepare_usage_data usage_data p_time c_time) = c_time
   \<and> prepare_usage_data (usage_data(''total_tokens'' \<mapsto> t)) p_time c_time =
     prepare_usage_data usage_data p_time c_time"
  by (simp add: prepare_usage_data_def dict_get_def Let_def)

section \<open>Properties of the tool-call loop and of predict\<close>

lemma tool_call_loop_append:
  "tool_call_loop loads dumps toolkit (pre @ suf) conversation =
     (case tool_call_loop loads dumps toolkit pre conversation of
        (None, conversation') \<Rightarrow> tool_call_loop loads dumps toolkit suf conversation'
      | (Some e, conversation') \<Rightarrow> (Some e, conversation'))"
  by (induction pre arbitrary: conversation) (auto split: sum.splits)

lemma run_tool_call_ok:
  "tools (function_name tc) = Some f \<Longrightarrow> loads (function_arguments tc) = Some a \<Longrightarrow>
   f a = Inr r \<Longrightarrow> dumps r = Some s \<Longrightarrow>
   run_tool_call loads dumps (Some tools) tc =
     Inr (FunctionMessage s (function_name tc) (call_id tc))"
  by (simp add: run_tool_call_def get_tool_by_name_def)

lemma run_tool_call_absent:
  "tools (function_name tc) = None \<Longrightarrow>
   run_tool_call loads dumps (Some tools) tc = Inl (ToolNotFound (function_name tc))"
  by (simp add: run_tool_call_def get_tool_by_name_def)

lemma tool_call_loop_all_ok:
  "\<forall>tc\<in>set calls. tools (function_name tc) = Some (f tc) \<and>
       loads (function_arguments tc) = Some (a tc) \<and> f tc (a tc) = Inr (r tc) \<and>
       dumps (r tc) = Some (s tc) \<Longrightarrow>
   tool_call_loop loads dumps (Some tools) calls conversation =
     (None, conversation @
        map (\<lambda>tc. FunctionMessage (s tc) (function_name tc) (call_id tc)) calls)"
proof (induction calls arbitrary: conversation)
  case Nil
  show ?case by simp
next
  case (Cons tc calls)
  have step: "run_tool_call loads dumps (Some tools) tc =
      Inr (FunctionMessage (s tc) (function_name tc) (call_id tc))"
    using Cons.prems
    by (intro run_tool_call_ok [where f = "f tc" and a = "a tc" and r = "r tc"]) auto
  have rest: "\<forall>tc\<in>set calls. tools (function_name tc) = Some (f tc) \<and>
       loads (function_arguments tc) = Some (a tc) \<and> f tc (a tc) = Inr (r tc) \<and>
       dumps (r tc) = Some (s tc)"
    using Cons.prems by simp
  show ?case
    by (simp add: step Cons.IH [OF rest] add_message_def)
qed

lemma tool_call_loop_stops_at_absent:
  assumes ok: "\<forall>tc\<in>set pre. tools (function_name tc) = Some (f tc) \<and>
       loads (function_arguments tc) = Some (a tc) \<and> f tc (a tc) = Inr (r tc) \<and>
       dumps (r tc) = Some (s tc)"
    and absent: "tools (function_name tc) = None"
  shows "tool_call_loop loads dumps (Some tools) (pre @ tc # rest) conversation =
     (Some (ToolNotFound (function_name tc)),
      conversation @ map (\<lambda>tc. FunctionMessage (s tc) (function_name tc) (call_id tc)) pre)"
  by (simp add: tool_call_loop_append tool_call_loop_all_ok [OF ok]
      run_tool_call_absent absent)

lemma example_toolkit_add:
  "example_toolkit ''add'' = Some add_tool" "example_toolkit ''missing'' = None"
  by (simp_all add: example_toolkit_def)

lemma example_add_call:
  \<open>function_name (add_call i) = ''add''\<close> \<open>call_id (add_call i) = i\<close>
  \<open>example_loads (function_arguments (add_call i)) = Some (1, 2)\<close>
  \<open>add_tool (1, 2) = Inr 3\<close> \<open>example_dumps 3 = Some ''3''\<close>
  by (simp_all add: add_call_def example_loads_def add_tool_def example_dumps_def)

text \<open>
  A request that fails for any reason ends the loop in the same way: the exception leaves
  the loop and the messages of the requests before it stay.
\<close>

lemma tool_call_loop_stops_at_failure:
  assumes ok: "\<forall>tc\<in>set pre. tools (function_name tc) = Some (f tc) \<and>
       loads (function_arguments tc) = Some (a tc) \<and> f tc (a tc) = Inr (r tc) \<and>
       dumps (r tc) = Some (s tc)"
    and fails: "(run_tool_call loads dumps (Some tools) tc :: error + 'd message) = Inl e"
  shows "tool_call_loop loads dumps (Some tools) (pre @ tc # rest)
       (conversation :: 'd conversation) =
     (Some e,
      conversation @ map (\<lambda>tc. FunctionMessage (s tc) (function_name tc) (call_id tc)) pre)"
  by (simp add: tool_call_loop_append tool_call_loop_all_ok [OF ok] fails)

lemma tool_call_loop_tool_raises_example:
  "tool_call_loop example_loads example_dumps (Some example_toolkit)
     [add_call ''call_1'',
      (add_call ''call_2'')\<lparr>function_name := ''boom''\<rparr>,
      add_call ''call_3'']
     [HumanMessage ''1 + 2?'' :: int message] =
   (Some (ToolRaised ''boom''), [HumanMessage ''1 + 2?'', FunctionMessage ''3'' ''add'' ''call_1''])"
  by (simp add: run_tool_call_def get_tool_by_name_def example_toolkit_def add_call_def
      example_loads_def add_tool_def failing_tool_def example_dumps_def add_message_def)

text \<open>
  Claim C1. Take a reply whose tool calls each name a tool \<open>f\<close> of the supplied toolkit,
  carry arguments that parse to \<open>a\<close>, and whose invocation \<open>f a\<close> returns a result \<open>r\<close>
  with serialization \<open>s\<close>. Then the loop, and with it \<^verbatim>\<open>predict\<close> and \<^verbatim>\<open>apredict\<close>, returns
  normally and has appended one function message per tool call, in the order of the
  reply, each with the id of its call and the serialized result \<open>s\<close> as content. The
  function messages follow the assistant message that the content of the reply, when it
  has one, gives.
\<close>

theorem tool_call_loop_one_message_per_request:
  assumes ok: "\<forall>tc\<in>set calls. tools (function_name tc) = Some (f tc) \<and>
       loads (function_arguments tc) = Some (a tc) \<and> f tc (a tc) = Inr (r tc) \<and>
       dumps (r tc) = Some (s tc)"
    and reply: "msg_tool_calls m = Some calls"
  shows "tool_call_loop loads dumps (Some tools) calls conversation =
       (None, conversation @
          map (\<lambda>tc. FunctionMessage (s tc) (function_name tc) (call_id tc)) calls)
     \<and> groq_predict loads dumps (Some tools) (Inr (m # ms)) conversation =
       (None, (case msg_content m of
                 None \<Rightarrow> conversation
               | Some c \<Rightarrow> conversation @ [AgentMessage c None]) @
          map (\<lambda>tc. FunctionMessage (s tc) (function_name tc) (call_id tc)) calls)
     \<and> groq_apredict loads dumps (Some tools) (Inr (m # ms)) conversation =
         groq_predict loads dumps (Some tools) (Inr (m # ms)) conversation"
proof -
  have loop: "tool_call_loop loads dumps (Some tools) calls c' =
       (None, c' @ map (\<lambda>tc. FunctionMessage (s tc) (function_name tc) (call_id tc)) calls)"
    for c' :: "'d conversation"
    by (rule tool_call_loop_all_ok [OF ok])
  have "groq_predict loads dumps (Some tools) (Inr (m # ms)) conversation =
       (None, (case msg_content m of
                 None \<Rightarrow> conversation
               | Some c \<Rightarrow> conversation @ [AgentMessage c None]) @
          map (\<lambda>tc. FunctionMessage (s tc) (function_name tc) (call_id tc)) calls)"
    by (cases "msg_content m"; cases "calls = []")
      (simp_all add: groq_predict_def handle_tool_response_def reply loop add_message_def)
  moreover have "groq_apredict loads dumps (Some tools) (Inr (m # ms)) conversation =
         groq_predict loads dumps (Some tools) (Inr (m # ms)) conversation"
    by (simp add: groq_apredict_def groq_predict_def)
  ultimately show ?thesis using loop by simp
qed

theorem tool_call_loop_one_message_per_request_witness:
  "groq_predict example_loads example_dumps (Some example_toolkit)
     (Inr [\<lparr>msg_content = Some ''ok'',
            msg_tool_calls = Some [add_call ''call_1'', add_call ''call_2'']\<rparr>])
     [HumanMessage ''1 + 2?'' :: int message] =
   (None, [HumanMessage ''1 + 2?'', AgentMessage ''ok'' None,
           FunctionMessage ''3'' ''add'' ''call_1'', FunctionMessage ''3'' ''add'' ''call_2''])"
  using tool_call_loop_one_message_per_request
    [where calls = "[add_call ''call_1'', add_call ''call_2'']"
       and tools = example_toolkit and loads = example_loads and dumps = example_dumps
       and f = "\<lambda>_. add_tool" and a = "\<lambda>_. (1, 2)" and r = "\<lambda>_. 3" and s = "\<lambda>_. ''3''"
       and m = "\<lparr>msg_content = Some ''ok'',
            msg_tool_calls = Some [add_call ''call_1'', add_call ''call_2'']\<rparr>"
       and ms = "[]" and conversation = "[HumanMessage ''1 + 2?'' :: int message]"]
  by (simp add: example_toolkit_add example_add_call)

text \<open>
  Claim C2. Let the first \<open>k - 1\<close> tool calls of a reply (\<open>pre\<close>) be executed as in C1 and
  let the \<open>k\<close>-th (\<open>tc\<close>) name a tool that the toolkit does not have. Then the loop, and
  with it \<^verbatim>\<open>predict\<close>, fails with \<^verbatim>\<open>ToolNotFound\<close>; the conversation it leaves holds the
  function messages of the first \<open>k - 1\<close> calls and no message for the \<open>k\<close>-th call or for
  any later one (\<open>rest\<close>).
\<close>

theorem tool_call_loop_tool_not_found:
  assumes ok: "\<forall>tc\<in>set pre. tools (function_name tc) = Some (f tc) \<and>
       loads (function_arguments tc) = Some (a tc) \<and> f tc (a tc) = Inr (r tc) \<and>
       dumps (r tc) = Some (s tc)"
    and absent: "tools (function_name tc) = None"
    and reply: "msg_tool_calls m = Some (pre @ tc # rest)"
  shows "tool_call_loop loads dumps (Some tools) (pre @ tc # rest) conversation =
       (Some (ToolNotFound (function_name tc)),
        conversation @
          map (\<lambda>tc. FunctionMessage (s tc) (function_name tc) (call_id tc)) pre)
     \<and> groq_predict loads dumps (Some tools) (Inr (m # ms)) conversation =
       (Some (ToolNotFound (function_name tc)),
        (case msg_content m of
           None \<Rightarrow> conversation
         | Some c \<Rightarrow> conversation @ [AgentMessage c None]) @
          map (\<lambda>tc. FunctionMessage (s tc) (function_name tc) (call_id tc)) pre)"
proof -
  have loop: "tool_call_loop loads dumps (Some tools) (pre @ tc # rest) c' =
       (Some (ToolNotFound (function_name tc)),
        c' @ map (\<lambda>tc. FunctionMessage (s tc) (function_name tc) (call_id tc)) pre)"
    for c' :: "'d conversation"
    by (rule tool_call_loop_stops_at_absent [OF ok absent])
  have "groq_predict loads dumps (Some tools) (Inr (m # ms)) conversation =
       (Some (ToolNotFound (function_name tc)),
        (case msg_content m of
           None \<Rightarrow> conversation
         | Some c \<Rightarrow> conversation @ [AgentMessage c None]) @
          map (\<lambda>tc. FunctionMessage (s tc) (function_name tc) (call_id tc)) pre)"
    by (cases "msg_content m")
      (simp_all add: groq_predict_def handle_tool_response_def reply loop add_message_def)
  then show ?thesis using loop by simp
qed

theorem tool_call_loop_tool_not_found_witness:
  "tool_call_loop example_loads example_dumps (Some example_toolkit)
     ([add_call ''call_1''] @ missing_call # [add_call ''call_3''])
     [HumanMessage ''1 + 2?'' :: int message] =
   (Some (ToolNotFound ''missing''),
    [HumanMessage ''1 + 2?'', FunctionMessage ''3'' ''add'' ''call_1''])"
  using tool_call_loop_tool_not_found
    [where pre = "[add_call ''call_1'']" and tc = missing_call
       and rest = "[add_call ''call_3'']"
       and tools = example_toolkit and loads = example_loads and dumps = example_dumps
       and f = "\<lambda>_. add_tool" and a = "\<lambda>_. (1, 2)" and r = "\<lambda>_. 3" and s = "\<lambda>_. ''3''"
       and m = "\<lparr>msg_content = None,
            msg_tool_calls = Some ([add_call ''call_1''] @ missing_call # [add_call ''call_3''])\<rparr>"
       and ms = "[]" and conversation = "[HumanMessage ''1 + 2?'' :: int message]"]
  by (simp add: example_toolkit_add example_add_call missing_call_def)

text \<open>
  Claim C3, as the code has it. When the first choice of the reply has a \<^verbatim>\<open>content\<close> key
  and no tool calls (the key \<^verbatim>\<open>tool_calls\<close> absent, or its list empty),
  \<^verbatim>\<open>GroqToolModel.predict\<close> appends exactly one assistant message, with that content,
  and returns the conversation; so does \<^verbatim>\<open>CohereModel.predict\<close> when the reply has the
  key \<^verbatim>\<open>text\<close>. When the \<^verbatim>\<open>content\<close> key is absent, \<^verbatim>\<open>GroqToolModel.predict\<close> returns the
  conversation with no message appended.
\<close>

theorem predict_appends_one_assistant_message:
  "(msg_content m = Some c \<and> (msg_tool_calls m = None \<or> msg_tool_calls m = Some []) \<longrightarrow>
      groq_predict loads dumps toolkit (Inr (m # ms)) conversation =
        (None, conversation @ [AgentMessage c None]))
   \<and> (msg_content m = None \<and> (msg_tool_calls m = None \<or> msg_tool_calls m = Some []) \<longrightarrow>
      groq_predict loads dumps toolkit (Inr (m # ms)) conversation = (None, conversation))
   \<and> (data_text d = Some c \<longrightarrow>
      (\<exists>u. cohere_predict (Inr d) p_time c_time conversation' =
        (None, conversation' @ [AgentMessage c (Some u)])))"
  by (auto simp add: groq_predict_def handle_tool_response_def cohere_predict_def
      add_message_def Let_def)

theorem predict_appends_one_assistant_message_witness:
  "groq_predict example_loads example_dumps (Some example_toolkit)
     (Inr [\<lparr>msg_content = Some ''hello'', msg_tool_calls = None\<rparr>])
     [HumanMessage ''hi'' :: int message] =
   (None, [HumanMessage ''hi'', AgentMessage ''hello'' None])"
  using predict_appends_one_assistant_message
    [where m = "\<lparr>msg_content = Some ''hello'', msg_tool_calls = None\<rparr>" and c = "''hello''"
       and loads = example_loads and dumps = example_dumps
       and toolkit = "Some example_toolkit" and ms = "[]"
       and conversation = "[HumanMessage ''hi'' :: int message]"
       and d = "\<lparr>data_text = Some ''hello'', data_usage = None\<rparr>"
       and p_time = "1 :: int" and c_time = 2 and conversation' = "[]"]
  by simp

text \<open>
  The claim as stated asks for one assistant message whatever the shape of the message
  object of the reply. A reply without the \<^verbatim>\<open>content\<close> key and without tool calls leaves
  the conversation as it was.
\<close>

theorem predict_no_content_counterexample:
  "groq_predict example_loads example_dumps (Some example_toolkit)
     (Inr [\<lparr>msg_content = None, msg_tool_calls = None\<rparr>])
     [HumanMessage ''hi'' :: int message] =
   (None, [HumanMessage ''hi''])"
  by (simp add: groq_predict_def handle_tool_response_def)

section \<open>Properties of the poller\<close>

lemma poll_non_terminal_step:
  "non_terminal (check i) \<Longrightarrow>
   poll check result request_id delay (Suc n) i =
     (case poll check result request_id delay n (Suc i) of
        (events, out) \<Rightarrow> (CheckStatus request_id # Sleep delay # events, out))"
  by (auto simp add: non_terminal_def)

lemma poll_all_non_terminal:
  "\<forall>j<n. non_terminal (check (i + j)) \<Longrightarrow>
   poll check result request_id delay n i =
     (concat (replicate n [CheckStatus request_id, Sleep delay]),
      Inl (TimeoutError (timeout_message request_id)))"
proof (induction n arbitrary: i)
  case 0
  show ?case by simp
next
  case (Suc n)
  have first: "non_terminal (check i)" using Suc.prems [rule_format, of 0] by simp
  have later: "\<forall>j<n. non_terminal (check (Suc i + j))"
    using Suc.prems by (auto dest: spec [where x = "Suc j" for j])
  show ?case
    by (simp only: poll_non_terminal_step [where check = check and i = i, OF first]
        Suc.IH [OF later]) simp
qed

lemma poll_completed:
  "\<forall>j<k. non_terminal (check (i + j)) \<Longrightarrow> check (i + k) = Inr (Some ''COMPLETED'') \<Longrightarrow>
   k < n \<Longrightarrow>
   poll check result request_id delay n i =
     (concat (replicate k [CheckStatus request_id, Sleep delay]) @
        [CheckStatus request_id, GetResult request_id], result)"
proof (induction k arbitrary: i n)
  case 0
  then obtain n' where "n = Suc n'" by (cases n) auto
  with 0 show ?case by simp
next
  case (Suc k)
  obtain n' where n: "n = Suc n'" and k: "k < n'" using Suc.prems(3) by (cases n) auto
  have first: "non_terminal (check i)" using Suc.prems(1) [rule_format, of 0] by simp
  have later: "\<forall>j<k. non_terminal (check (Suc i + j))"
    using Suc.prems(1) by (auto dest: spec [where x = "Suc j" for j])
  have fin: "check (Suc i + k) = Inr (Some ''COMPLETED'')" using Suc.prems(2) by simp
  show ?case
    unfolding n
    by (simp only: poll_non_terminal_step [where check = check and i = i, OF first]
        Suc.IH [OF later fin k]) simp
qed

lemma status_checks_rounds:
  "status_checks (concat (replicate n [CheckStatus request_id, Sleep delay]) @ rest) =
     n + status_checks rest"
  by (induction n) (simp_all add: status_checks_def)

lemma result_fetches_rounds:
  "result_fetches (concat (replicate n [CheckStatus request_id, Sleep delay]) @ rest) =
     result_fetches rest"
  by (induction n) (simp_all add: result_fetches_def)

text \<open>
  Claim C4. If every status check of a submitted request finds it queued or in progress,
  the poller makes exactly \<^verbatim>\<open>max_retries\<close> status checks, sleeps \<^verbatim>\<open>retry_delay\<close> after each
  of them, never fetches the result, and raises the timeout error whose text names the
  request id. If a status check within the first \<^verbatim>\<open>max_retries\<close> finds the request
  completed, all earlier ones having found it queued or in progress, the poller fetches
  the result and returns what the fetch gives. The asynchronous poller does the same, and
  a model built without \<^verbatim>\<open>max_retries\<close> has 60 of them.
\<close>

theorem wait_for_completion_retry_ceiling:
  "((\<forall>i < nat (max_retries self). non_terminal (check i)) \<longrightarrow>
      wait_for_completion self check result request_id =
        (concat (replicate (nat (max_retries self))
           [CheckStatus request_id, Sleep (retry_delay self)]),
         Inl (TimeoutError
           (''Request '' @ request_id @ '' did not complete within the timeout period'')))
      \<and> status_checks (fst (wait_for_completion self check result request_id)) =
          nat (max_retries self)
      \<and> result_fetches (fst (wait_for_completion self check result request_id)) = 0)
   \<and> ((\<forall>i<k. non_terminal (check' i)) \<and> check' k = Inr (Some ''COMPLETED'')
        \<and> k < nat (max_retries self) \<longrightarrow>
      wait_for_completion self check' result request_id =
        (concat (replicate k [CheckStatus request_id, Sleep (retry_delay self)]) @
           [CheckStatus request_id, GetResult request_id], result))
   \<and> async_wait_for_completion self check result request_id =
       wait_for_completion self check result request_id
   \<and> (arg_max_retries args = None \<and> fal_init env_key args = (Inr model, env_key') \<longrightarrow>
       max_retries model = 60)"
proof -
  have timeout: "wait_for_completion self check result request_id =
        (concat (replicate (nat (max_retries self))
           [CheckStatus request_id, Sleep (retry_delay self)]),
         Inl (TimeoutError
           (''Request '' @ request_id @ '' did not complete within the timeout period'')))"
    if "\<forall>i < nat (max_retries self). non_terminal (check i)"
    using poll_all_non_terminal [of "nat (max_retries self)" check 0 result request_id
        "retry_delay self"] that
    by (simp add: wait_for_completion_def timeout_message_def)
  have counts: "status_checks (fst (wait_for_completion self check result request_id)) =
          nat (max_retries self)
      \<and> result_fetches (fst (wait_for_completion self check result request_id)) = 0"
    if "\<forall>i < nat (max_retries self). non_terminal (check i)"
    using status_checks_rounds [of "nat (max_retries self)" request_id "retry_delay self" "[]"]
      result_fetches_rounds [of "nat (max_retries self)" request_id "retry_delay self" "[]"]
    by (simp add: timeout [OF that] status_checks_def result_fetches_def)
  have completed: "wait_for_completion self check' result request_id =
        (concat (replicate k [CheckStatus request_id, Sleep (retry_delay self)]) @
           [CheckStatus request_id, GetResult request_id], result)"
    if "\<forall>i<k. non_terminal (check' i)" "check' k = Inr (Some ''COMPLETED'')"
      "k < nat (max_retries self)"
    using poll_completed [of k check' 0 "nat (max_retries self)" result request_id
        "retry_delay self"] that
    by (simp add: wait_for_completion_def)
  have async: "async_wait_for_completion self check result request_id =
       wait_for_completion self check result request_id"
    by (simp add: async_wait_for_completion_def wait_for_completion_def)
  have default: "max_retries model = 60"
    if "arg_max_retries args = None" "fal_init env_key args = (Inr model, env_key')"
    using that
    by (auto simp add: fal_init_def Let_def split: sum.splits if_splits)
  show ?thesis using timeout counts completed async default by blast
qed

theorem wait_for_completion_retry_ceiling_witness:
  "wait_for_completion three_retries never_completes (Inr ''url'') ''r1'' =
     ([CheckStatus ''r1'', Sleep 0, CheckStatus ''r1'', Sleep 0, CheckStatus ''r1'', Sleep 0],
      Inl (TimeoutError ''Request r1 did not complete within the timeout period''))
   \<and> wait_for_completion three_retries completes_third (Inr ''url'') ''r1'' =
     ([CheckStatus ''r1'', Sleep 0, CheckStatus ''r1'', Sleep 0, CheckStatus ''r1'',
       GetResult ''r1''], Inr ''url'')"
  using wait_for_completion_retry_ceiling
    [where self = three_retries and check = never_completes and check' = completes_third
       and k = 2 and result = "Inr ''url''" and request_id = "''r1''"
       and args = no_arguments and env_key = None
       and model = "\<lparr>allowed_models = fal_allowed_models, api_key = None,
         model_name = ''fal-ai/flux-pro'', max_retries = 60, retry_delay = 1\<rparr>"
       and env_key' = None]
  by (simp add: three_retries_def never_completes_def completes_third_def non_terminal_def
      numeral_3_eq_3 numeral_2_eq_2)

section \<open>Properties of the constructors\<close>






section \<open>Properties of the streams\<close>

text \<open>
  In the Groq stream a malformed line leaves no trace: the run over all lines is the run
  over the lines that are not malformed.
\<close>

lemma groq_stream_lines_skips_malformed:
  "groq_stream_lines loads
     (filter (\<lambda>line. \<not> malformed loads (str_replace ''data: '' '''' line)) lines)
     message_content =
   groq_stream_lines loads lines message_content"
proof (induction lines arbitrary: message_content)
  case Nil
  show ?case by simp
next
  case (Cons line lines)
  let ?keep = "\<lambda>line. \<not> malformed loads (str_replace ''data: '' '''' line)"
  show ?case
  proof (cases "malformed loads (str_replace ''data: '' '''' line)")
    case True
    then have "filter ?keep (line # lines) = filter ?keep lines" by simp
    moreover have "groq_stream_lines loads (line # lines) message_content =
        groq_stream_lines loads lines message_content"
      using True by (simp add: malformed_def)
    ultimately show ?thesis using Cons.IH by simp
  next
    case False
    then have keep: "filter ?keep (line # lines) = line # filter ?keep lines" by simp
    show ?thesis
      unfolding keep groq_stream_lines.simps Cons.IH ..
  qed
qed

lemma str_replace_groq_lines:
  \<open>str_replace ''data: '' '''' ''data: not json'' = ''not json''\<close>
  \<open>str_replace ''data: '' '''' ''data: [DONE]'' = ''[DONE]''\<close>
  \<open>str_replace ''data: '' '''' ''data: {"choices": [{"delta": {"content": "Hel"}}]}'' =
     ''{"choices": [{"delta": {"content": "Hel"}}]}''\<close>
  \<open>str_replace ''data: '' '''' ''data: {"choices": [{"delta": {"content": "lo"}}]}'' =
     ''{"choices": [{"delta": {"content": "lo"}}]}''\<close>
  by code_simp+

lemma groq_stream_lines_example:
  "groq_stream_lines groq_loads groq_lines '''' = ([''Hel'', ''lo''], None, ''Hello'')"
  by (simp add: groq_lines_def groq_loads_def str_replace_groq_lines)

lemma groq_stream_example:
  "groq_stream example_loads example_dumps (Some example_toolkit)
     (Inr [\<lparr>msg_content = None, msg_tool_calls = None\<rparr>]) groq_loads (Inr groq_lines)
     [HumanMessage ''hi'' :: int message] =
   ([''Hel'', ''lo''], None, [HumanMessage ''hi'', AgentMessage ''Hello'' None])"
  by (simp add: groq_stream_def handle_tool_response_def groq_stream_lines_example
      add_message_def)

lemma cohere_stream_lines_malformed:
  "malformed loads line \<Longrightarrow>
   cohere_stream_lines loads (line # rest) collected_content usage_data =
     ([], Some JSONDecodeError, collected_content, usage_data)"
  by (simp add: malformed_def)

text \<open>
  Claim C8 on \<^verbatim>\<open>CohereModel.stream\<close>. The body has three lines, the second of them not
  JSON. The stream yields the fragment of the first line and then raises the parser's
  exception: the fragment of the third line is not yielded and no assistant message is
  appended.
\<close>

theorem cohere_stream_malformed_line_raises:
  "cohere_stream cohere_loads (Inr cohere_lines) 0 0 [HumanMessage ''hi'' :: int message] =
     ([''Hel''], Some JSONDecodeError, [HumanMessage ''hi''])"
  by (simp add: cohere_stream_def cohere_lines_def cohere_loads_def)

section \<open>Properties of abatch\<close>

lemma count_list_update:
  "i < length xs \<Longrightarrow>
   length (filter P (xs[i := x])) + (if P (xs ! i) then 1 else 0) =
     length (filter P xs) + (if P x then 1 else 0)"
proof (induction xs arbitrary: i)
  case Nil
  then show ?case by simp
next
  case (Cons y ys)
  show ?case
  proof (cases i)
    case 0
    then show ?thesis by simp
  next
    case (Suc j)
    then have "j < length ys" using Cons.prems by simp
    from Cons.IH [OF this] show ?thesis using Suc by simp
  qed
qed

lemma abatch_step_slots:
  assumes "abatch_step apredict conversations s ev = Some s'"
  shows "sem_value s' + in_flight s' = sem_value s + in_flight s"
proof (cases ev)
  case (Acquire i)
  with assms have en: "i < length (tasks s)" "tasks s ! i = Waiting" "0 < sem_value s"
    and s': "s' = s\<lparr>sem_value := sem_value s - 1, tasks := (tasks s)[i := InFlight]\<rparr>"
    by (auto split: if_splits)
  from count_list_update [OF en(1),
      of "\<lambda>t. case t of InFlight \<Rightarrow> True | _ \<Rightarrow> False" InFlight]
  show ?thesis using en by (simp add: s' in_flight_def)
next
  case (Finish i)
  with assms have en: "i < length (tasks s)" "tasks s ! i = InFlight"
    and s': "sem_value s' = sem_value s + 1"
      "(\<exists>c. tasks s' = (tasks s)[i := Returned c]) \<or> (\<exists>e. tasks s' = (tasks s)[i := Raised e])"
    by (auto split: if_splits sum.splits)
  from s'(2) show ?thesis
  proof
    assume "\<exists>c. tasks s' = (tasks s)[i := Returned c]"
    then obtain c where t: "tasks s' = (tasks s)[i := Returned c]" ..
    from count_list_update [OF en(1),
        of "\<lambda>t. case t of InFlight \<Rightarrow> True | _ \<Rightarrow> False" "Returned c"]
    show ?thesis using en by (simp add: s'(1) t in_flight_def)
  next
    assume "\<exists>e. tasks s' = (tasks s)[i := Raised e]"
    then obtain e where t: "tasks s' = (tasks s)[i := Raised e]" ..
    from count_list_update [OF en(1),
        of "\<lambda>t. case t of InFlight \<Rightarrow> True | _ \<Rightarrow> False" "Raised e"]
    show ?thesis using en by (simp add: s'(1) t in_flight_def)
  qed
qed

lemma abatch_run_slots:
  "abatch_run apredict conversations s evs = Some s' \<Longrightarrow>
   sem_value s' + in_flight s' = sem_value s + in_flight s"
proof (induction evs arbitrary: s)
  case Nil
  then show ?case by simp
next
  case (Cons ev evs)
  then obtain s1 where step: "abatch_step apredict conversations s ev = Some s1"
    and run: "abatch_run apredict conversations s1 evs = Some s'"
    by (auto split: option.splits)
  show ?case using Cons.IH [OF run] abatch_step_slots [OF step] by simp
qed

lemma abatch_run_append:
  "abatch_run apredict conversations s (evs @ evs') =
     (case abatch_run apredict conversations s evs of
        None \<Rightarrow> None
      | Some s1 \<Rightarrow> abatch_run apredict conversations s1 evs')"
  by (induction evs arbitrary: s) (auto split: option.splits)

lemma abatch_run_take:
  assumes "abatch_run apredict conversations s evs = Some s'"
  shows "\<exists>s1. abatch_run apredict conversations s (take n evs) = Some s1"
proof -
  have "abatch_run apredict conversations s (take n evs @ drop n evs) = Some s'"
    using assms by simp
  then show ?thesis
    unfolding abatch_run_append by (auto split: option.splits)
qed

lemma abatch_start_slots:
  "abatch_start max_concurrent conversations = Inr s \<Longrightarrow>
   sem_value s = nat max_concurrent \<and> in_flight s = 0 \<and> 0 \<le> max_concurrent"
  by (auto simp add: abatch_start_def in_flight_def filter_empty_conv split: if_splits)

lemma abatch_step_steps_left:
  assumes "abatch_step apredict conversations s ev = Some s'"
  shows "Suc (steps_left s') = steps_left s"
proof (cases ev)
  case (Acquire i)
  with assms have en: "i < length (tasks s)" "tasks s ! i = Waiting"
    and s': "tasks s' = (tasks s)[i := InFlight]"
    by (auto split: if_splits)
  from count_list_update [OF en(1), of "\<lambda>t. case t of Waiting \<Rightarrow> True | _ \<Rightarrow> False" InFlight]
    count_list_update [OF en(1), of "\<lambda>t. case t of InFlight \<Rightarrow> True | _ \<Rightarrow> False" InFlight]
  show ?thesis using en by (simp add: s' steps_left_def)
next
  case (Finish i)
  with assms have en: "i < length (tasks s)" "tasks s ! i = InFlight"
    and s': "(\<exists>c. tasks s' = (tasks s)[i := Returned c]) \<or>
       (\<exists>e. tasks s' = (tasks s)[i := Raised e])"
    by (auto split: if_splits sum.splits)
  from s' obtain t where t: "tasks s' = (tasks s)[i := t]" "\<not> pending t"
    by auto
  then have cases_t: "(case t of Waiting \<Rightarrow> True | _ \<Rightarrow> False) = False"
    "(case t of InFlight \<Rightarrow> True | _ \<Rightarrow> False) = False"
    by (cases t; simp)+
  from count_list_update [OF en(1), of "\<lambda>t. case t of Waiting \<Rightarrow> True | _ \<Rightarrow> False" t]
    count_list_update [OF en(1), of "\<lambda>t. case t of InFlight \<Rightarrow> True | _ \<Rightarrow> False" t]
  show ?thesis using en cases_t by (simp add: t(1) steps_left_def)
qed

lemma abatch_run_steps_left:
  "abatch_run apredict conversations s evs = Some s' \<Longrightarrow>
   length evs + steps_left s' = steps_left s"
proof (induction evs arbitrary: s)
  case Nil
  then show ?case by simp
next
  case (Cons ev evs)
  then obtain s1 where step: "abatch_step apredict conversations s ev = Some s1"
    and run: "abatch_run apredict conversations s1 evs = Some s'"
    by (auto split: option.splits)
  show ?case using Cons.IH [OF run] abatch_step_steps_left [OF step] by simp
qed

lemma abatch_start_steps_left:
  "abatch_start max_concurrent conversations = Inr s \<Longrightarrow>
   steps_left s = 2 * length conversations"
  by (auto simp add: abatch_start_def steps_left_def split: if_splits)

lemma abatch_start_agrees:
  "abatch_start max_concurrent conversations = Inr s \<Longrightarrow> agrees apredict conversations s"
  by (auto simp add: abatch_start_def agrees_def split: if_splits)

lemma agrees_update:
  assumes inv: "agrees apredict conversations s"
    and t: "case t of
              Returned c \<Rightarrow> apredict i (conversations ! i) = Inr c
            | Raised e \<Rightarrow> apredict i (conversations ! i) = Inl e
            | _ \<Rightarrow> True"
    and fr: "case fr of
               None \<Rightarrow> True
             | Some e \<Rightarrow> \<exists>i<length conversations. apredict i (conversations ! i) = Inl e"
  shows "agrees apredict conversations
           (s\<lparr>sem_value := v, tasks := (tasks s)[i := t], first_raised := fr\<rparr>)"
proof -
  have len: "length (tasks s) = length conversations" using inv by (simp add: agrees_def)
  have old: "case tasks s ! j of
            Returned c \<Rightarrow> apredict j (conversations ! j) = Inr c
          | Raised e \<Rightarrow> apredict j (conversations ! j) = Inl e
          | _ \<Rightarrow> True" if "j < length conversations" for j
    using inv that by (simp add: agrees_def)
  have new: "case (tasks s)[i := t] ! j of
            Returned c \<Rightarrow> apredict j (conversations ! j) = Inr c
          | Raised e \<Rightarrow> apredict j (conversations ! j) = Inl e
          | _ \<Rightarrow> True" if "j < length conversations" for j
  proof (cases "j = i")
    case True
    then show ?thesis using t that len by (cases t) simp_all
  next
    case False
    then show ?thesis using old [OF that] by simp
  qed
  show ?thesis unfolding agrees_def using len new fr by simp
qed

lemma abatch_step_agrees:
  assumes step: "abatch_step apredict conversations s ev = Some s'"
    and inv: "agrees apredict conversations s"
  shows "agrees apredict conversations s'"
proof (cases ev)
  case (Acquire i)
  with step have s': "s' = s\<lparr>sem_value := sem_value s - 1, tasks := (tasks s)[i := InFlight],
      first_raised := first_raised s\<rparr>"
    by (auto split: if_splits)
  have fr: "case first_raised s of
              None \<Rightarrow> True
            | Some e \<Rightarrow> \<exists>i<length conversations. apredict i (conversations ! i) = Inl e"
    using inv by (simp add: agrees_def)
  show ?thesis unfolding s' by (rule agrees_update [OF inv _ fr]) simp
next
  case (Finish i)
  with step have en: "i < length conversations" "i < length (tasks s)"
    by (auto split: if_splits)
  have fr: "case first_raised s of
              None \<Rightarrow> True
            | Some e \<Rightarrow> \<exists>i<length conversations. apredict i (conversations ! i) = Inl e"
    using inv by (simp add: agrees_def)
  show ?thesis
  proof (cases "apredict i (conversations ! i)")
    case (Inr c)
    with step Finish en
    have s': "s' = s\<lparr>sem_value := sem_value s + 1, tasks := (tasks s)[i := Returned c],
        first_raised := first_raised s\<rparr>"
      by (auto split: if_splits)
    show ?thesis unfolding s' by (rule agrees_update [OF inv _ fr]) (simp add: Inr)
  next
    case (Inl e)
    with step Finish en
    have s': "s' = s\<lparr>sem_value := sem_value s + 1, tasks := (tasks s)[i := Raised e],
        first_raised := (case first_raised s of None \<Rightarrow> Some e | Some e' \<Rightarrow> Some e')\<rparr>"
      by (auto split: if_splits)
    have fr': "case (case first_raised s of None \<Rightarrow> Some e | Some e' \<Rightarrow> Some e') of
              None \<Rightarrow> True
            | Some e \<Rightarrow> \<exists>i<length conversations. apredict i (conversations ! i) = Inl e"
      using fr Inl en(1) by (cases "first_raised s") auto
    show ?thesis unfolding s' by (rule agrees_update [OF inv _ fr']) (simp add: Inl)
  qed
qed

lemma abatch_run_agrees:
  "abatch_run apredict conversations s evs = Some s' \<Longrightarrow> agrees apredict conversations s \<Longrightarrow>
   agrees apredict conversations s'"
proof (induction evs arbitrary: s)
  case Nil
  then show ?case by simp
next
  case (Cons ev evs)
  then obtain s1 where step: "abatch_step apredict conversations s ev = Some s1"
    and run: "abatch_run apredict conversations s1 evs = Some s'"
    by (auto split: option.splits)
  show ?case using Cons.IH [OF run abatch_step_agrees [OF step Cons.prems(2)]] .
qed

lemma those_returned:
  "\<forall>t\<in>set ts. \<not> pending t \<and> (\<forall>e. t \<noteq> Raised e) \<Longrightarrow>
   \<exists>rs. those (map returned ts) = Some rs \<and> length rs = length ts
     \<and> (\<forall>i<length ts. ts ! i = Returned (rs ! i))"
proof (induction ts)
  case Nil
  show ?case by simp
next
  case (Cons t ts)
  then obtain rs where rs: "those (map returned ts) = Some rs" "length rs = length ts"
    "\<forall>i<length ts. ts ! i = Returned (rs ! i)"
    by auto
  from Cons.prems obtain c where c: "t = Returned c" by (cases t) auto
  have "those (map returned (t # ts)) = Some (c # rs)" using rs(1) c by simp
  moreover have "length (c # rs) = length (t # ts)" using rs(2) by simp
  moreover have "\<forall>i<length (t # ts). (t # ts) ! i = Returned ((c # rs) ! i)"
    using rs(3) c by (auto simp add: nth_Cons split: nat.splits)
  ultimately show ?case by blast
qed

lemma gather_all_returned:
  assumes inv: "agrees apredict conversations s"
    and fin: "\<forall>t\<in>set (tasks s). \<not> pending t"
    and ok: "\<forall>i<length conversations. \<exists>c. apredict i (conversations ! i) = Inr c"
  shows "\<exists>rs. gather s = Some (Inr rs) \<and> length rs = length conversations
     \<and> (\<forall>i<length conversations. apredict i (conversations ! i) = Inr (rs ! i))"
proof -
  have len: "length (tasks s) = length conversations" using inv by (simp add: agrees_def)
  have none: "first_raised s = None"
    using inv ok by (cases "first_raised s") (auto simp add: agrees_def)
  have no_raise: "\<forall>t\<in>set (tasks s). \<forall>e. t \<noteq> Raised e"
  proof (intro ballI allI notI)
    fix t e assume "t \<in> set (tasks s)" "t = Raised e"
    then obtain i where i: "i < length (tasks s)" "tasks s ! i = Raised e"
      by (auto simp add: in_set_conv_nth)
    then have "apredict i (conversations ! i) = Inl e"
      using inv len by (auto simp add: agrees_def split: task.splits)
    then show False using ok i(1) len by auto
  qed
  from those_returned [of "tasks s"] fin no_raise
  obtain rs where rs: "those (map returned (tasks s)) = Some rs" "length rs = length (tasks s)"
    "\<forall>i<length (tasks s). tasks s ! i = Returned (rs ! i)"
    by blast
  have "gather s = Some (Inr rs)" by (simp add: gather_def none rs(1))
  moreover have "\<forall>i<length conversations. apredict i (conversations ! i) = Inr (rs ! i)"
  proof (intro allI impI)
    fix i assume i: "i < length conversations"
    then have "tasks s ! i = Returned (rs ! i)" using rs(3) len by simp
    then show "apredict i (conversations ! i) = Inr (rs ! i)"
      using inv i by (auto simp add: agrees_def split: task.splits)
  qed
  ultimately show ?thesis using rs(2) len by auto
qed

lemma abatch_progress:
  assumes inv: "length (tasks s) = length conversations"
    and slots: "sem_value s + in_flight s = nat max_concurrent"
    and pos: "1 \<le> max_concurrent"
    and todo: "\<exists>t\<in>set (tasks s). pending t"
  shows "\<exists>ev s'. abatch_step apredict conversations s ev = Some s'"
proof (cases "\<exists>i<length (tasks s). tasks s ! i = InFlight")
  case True
  then obtain i where i: "i < length (tasks s)" "tasks s ! i = InFlight" by blast
  then have "\<exists>s'. abatch_step apredict conversations s (Finish i) = Some s'"
    using inv by (cases "apredict i (conversations ! i)") simp_all
  then show ?thesis by blast
next
  case False
  then have "\<forall>t\<in>set (tasks s). t \<noteq> InFlight" by (auto simp add: in_set_conv_nth)
  then have "in_flight s = 0"
    by (auto simp add: in_flight_def filter_empty_conv split: task.splits)
  then have free: "0 < sem_value s" using slots pos by simp
  from todo False obtain i where i: "i < length (tasks s)" "tasks s ! i = Waiting"
    by (metis in_set_conv_nth pending.elims(2))
  then have "\<exists>s'. abatch_step apredict conversations s (Acquire i) = Some s'"
    using free by simp
  then show ?thesis by blast
qed

lemma cohere_abatch_call_good:
  "cohere_abatch_call good_replies no_time no_time i conversation =
     Inr (conversation @ [AgentMessage (if i = 0 then ''A'' else ''B'') (Some no_usage)])"
  by (simp add: cohere_abatch_call_def cohere_apredict_def good_replies_def no_time_def
      no_usage_def prepare_usage_data_def dict_get_def add_message_def)

lemma cohere_abatch_call_second_fails:
  "cohere_abatch_call second_fails no_time no_time (Suc 0) conversation = Inl HTTPStatusError"
  "i \<noteq> Suc 0 \<Longrightarrow> cohere_abatch_call second_fails no_time no_time i conversation =
     Inr (conversation @ [AgentMessage ''A'' (Some no_usage)])"
  by (simp_all add: cohere_abatch_call_def cohere_apredict_def second_fails_def no_time_def
      no_usage_def prepare_usage_data_def dict_get_def add_message_def)

text \<open>
  Claim C5. A run of \<^verbatim>\<open>abatch\<close> on \<open>N\<close> conversations has at most \<open>2 * N\<close> steps; with at
  least one slot, a run that has left a task waiting or in flight can take a further
  step. Once every task has left its block, in whatever order the calls finished, and
  every call has returned, \<^verbatim>\<open>gather\<close> returns a list of length \<open>N\<close> whose \<open>i\<close>-th element is
  what \<^verbatim>\<open>apredict\<close> returns on the \<open>i\<close>-th conversation. The conversations of the list are
  taken to be different objects.
\<close>

theorem abatch_results_in_input_order:
  assumes start: "abatch_start max_concurrent conversations = Inr s0"
    and run: "abatch_run apredict conversations s0 events = Some s"
  shows "length events \<le> 2 * length conversations
     \<and> (1 \<le> max_concurrent \<and> (\<exists>t\<in>set (tasks s). pending t) \<longrightarrow>
          (\<exists>ev s'. abatch_step apredict conversations s ev = Some s'))
     \<and> ((\<forall>t\<in>set (tasks s). \<not> pending t)
          \<and> (\<forall>i<length conversations. \<exists>c. apredict i (conversations ! i) = Inr c) \<longrightarrow>
          (\<exists>rs. gather s = Some (Inr rs) \<and> length rs = length conversations
             \<and> (\<forall>i<length conversations. apredict i (conversations ! i) = Inr (rs ! i))))"
proof -
  have inv: "agrees apredict conversations s"
    using abatch_run_agrees [OF run abatch_start_agrees [OF start]] .
  have slots: "sem_value s + in_flight s = nat max_concurrent"
    using abatch_run_slots [OF run] abatch_start_slots [OF start] by simp
  have "length events + steps_left s = 2 * length conversations"
    using abatch_run_steps_left [OF run] abatch_start_steps_left [OF start] by simp
  then have finite: "length events \<le> 2 * length conversations" by simp
  have progress: "\<exists>ev s'. abatch_step apredict conversations s ev = Some s'"
    if "1 \<le> max_concurrent" "\<exists>t\<in>set (tasks s). pending t"
    using abatch_progress [OF _ slots that] inv by (simp add: agrees_def)
  have result: "\<exists>rs. gather s = Some (Inr rs) \<and> length rs = length conversations
             \<and> (\<forall>i<length conversations. apredict i (conversations ! i) = Inr (rs ! i))"
    if "\<forall>t\<in>set (tasks s). \<not> pending t"
      "\<forall>i<length conversations. \<exists>c. apredict i (conversations ! i) = Inr c"
    using gather_all_returned [OF inv that] .
  show ?thesis using finite progress result by blast
qed

theorem abatch_results_in_input_order_witness:
  "abatch_start 2 two_conversations =
     Inr \<lparr>sem_value = 2, tasks = [Waiting, Waiting], first_raised = None\<rparr>
   \<and> abatch_run (cohere_abatch_call good_replies no_time no_time) two_conversations
       \<lparr>sem_value = 2, tasks = [Waiting, Waiting], first_raised = None\<rparr>
       [Acquire 0, Acquire 1, Finish 1, Finish 0] =
     Some \<lparr>sem_value = 2,
           tasks = [Returned [HumanMessage ''a'', AgentMessage ''A'' (Some no_usage)],
                    Returned [HumanMessage ''b'', AgentMessage ''B'' (Some no_usage)]],
           first_raised = None\<rparr>
   \<and> gather \<lparr>sem_value = 2,
           tasks = [Returned [HumanMessage ''a'', AgentMessage ''A'' (Some no_usage)],
                    Returned [HumanMessage ''b'', AgentMessage ''B'' (Some no_usage)]],
           first_raised = None\<rparr> =
     Some (Inr [[HumanMessage ''a'', AgentMessage ''A'' (Some no_usage)],
                [HumanMessage ''b'', AgentMessage ''B'' (Some no_usage)]])"
proof -
  let ?init = "\<lparr>sem_value = 2, tasks = [Waiting, Waiting], first_raised = None\<rparr>
    :: int conversation batch"
  let ?final = "\<lparr>sem_value = 2,
           tasks = [Returned [HumanMessage ''a'', AgentMessage ''A'' (Some no_usage)],
                    Returned [HumanMessage ''b'', AgentMessage ''B'' (Some no_usage)]],
           first_raised = None\<rparr> :: int conversation batch"
  have start: "abatch_start 2 two_conversations = Inr ?init"
    by (simp add: abatch_start_def two_conversations_def)
  have run: "abatch_run (cohere_abatch_call good_replies no_time no_time) two_conversations
       ?init [Acquire 0, Acquire 1, Finish 1, Finish 0] = Some ?final"
    by (simp add: two_conversations_def cohere_abatch_call_good)
  have fin: "\<forall>t\<in>set (tasks ?final). \<not> pending t" by simp
  have ok: "\<forall>i<length two_conversations.
      \<exists>c. cohere_abatch_call good_replies no_time no_time i (two_conversations ! i) = Inr c"
    by (simp add: cohere_abatch_call_good)
  from abatch_results_in_input_order [OF start run] fin ok
  obtain rs where rs: "gather ?final = Some (Inr rs)" "length rs = length two_conversations"
    "\<forall>i<length two_conversations.
       cohere_abatch_call good_replies no_time no_time i (two_conversations ! i) = Inr (rs ! i)"
    by blast
  have "rs ! 0 = [HumanMessage ''a'', AgentMessage ''A'' (Some no_usage)]"
    using rs(3) [rule_format, of 0] by (simp add: two_conversations_def cohere_abatch_call_good)
  moreover have "rs ! 1 = [HumanMessage ''b'', AgentMessage ''B'' (Some no_usage)]"
    using rs(3) [rule_format, of 1] by (simp add: two_conversations_def cohere_abatch_call_good)
  moreover have "length rs = 2" using rs(2) by (simp add: two_conversations_def)
  ultimately have "rs = [[HumanMessage ''a'', AgentMessage ''A'' (Some no_usage)],
                [HumanMessage ''b'', AgentMessage ''B'' (Some no_usage)]]"
    by (cases rs; cases "tl rs"; cases "tl (tl rs)") auto
  with rs(1) have result: "gather ?final =
     Some (Inr [[HumanMessage ''a'', AgentMessage ''A'' (Some no_usage)],
                [HumanMessage ''b'', AgentMessage ''B'' (Some no_usage)]])"
    by simp
  show ?thesis by (intro conjI start run result)
qed

text \<open>
  Claim C6. In every state that a run of \<^verbatim>\<open>abatch\<close> reaches, and so at every point of every
  interleaving, the calls in flight and the free slots add up to \<^verbatim>\<open>max_concurrent\<close>: no
  more than \<^verbatim>\<open>max_concurrent\<close> calls are in flight. A task in flight can always finish, and
  when it does the slot is given back whether its call returned or raised; with no free
  slot no task is let in.
\<close>

theorem abatch_in_flight_bounded:
  assumes start: "abatch_start max_concurrent conversations = Inr s0"
    and run: "abatch_run apredict conversations s0 events = Some s"
  shows "in_flight s \<le> nat max_concurrent
     \<and> sem_value s + in_flight s = nat max_concurrent
     \<and> (\<forall>n. \<exists>s1. abatch_run apredict conversations s0 (take n events) = Some s1
            \<and> in_flight s1 \<le> nat max_concurrent)
     \<and> (\<forall>i. i < length conversations \<and> tasks s ! i = InFlight \<longrightarrow>
          (\<exists>s'. abatch_step apredict conversations s (Finish i) = Some s'
             \<and> sem_value s' = sem_value s + 1
             \<and> tasks s' ! i =
                 (case apredict i (conversations ! i) of
                    Inr c \<Rightarrow> Returned c | Inl e \<Rightarrow> Raised e)))
     \<and> (\<forall>i. sem_value s = 0 \<longrightarrow>
          abatch_step apredict conversations s (Acquire i) = None)"
proof -
  have slots: "sem_value s1 + in_flight s1 = nat max_concurrent"
    if "abatch_run apredict conversations s0 evs = Some s1" for evs s1
    using abatch_run_slots [OF that] abatch_start_slots [OF start] by simp
  have bound: "in_flight s1 \<le> nat max_concurrent"
    if "abatch_run apredict conversations s0 evs = Some s1" for evs s1
    using slots [OF that] by simp
  have prefixes: "\<exists>s1. abatch_run apredict conversations s0 (take n events) = Some s1
            \<and> in_flight s1 \<le> nat max_concurrent" for n
    using abatch_run_take [OF run, of n] bound by blast
  have len: "length (tasks s) = length conversations"
    using abatch_run_agrees [OF run abatch_start_agrees [OF start]] by (simp add: agrees_def)
  have release: "\<exists>s'. abatch_step apredict conversations s (Finish i) = Some s'
             \<and> sem_value s' = sem_value s + 1
             \<and> tasks s' ! i =
                 (case apredict i (conversations ! i) of
                    Inr c \<Rightarrow> Returned c | Inl e \<Rightarrow> Raised e)"
    if "i < length conversations" "tasks s ! i = InFlight" for i
    using that len by (cases "apredict i (conversations ! i)") simp_all
  have blocked: "abatch_step apredict conversations s (Acquire i) = None"
    if "sem_value s = 0" for i
    using that by simp
  show ?thesis using slots [OF run] bound [OF run] prefixes release blocked by blast
qed

theorem abatch_in_flight_bounded_witness:
  "abatch_start 2 three_conversations =
     Inr \<lparr>sem_value = 2, tasks = [Waiting, Waiting, Waiting], first_raised = None\<rparr>
   \<and> abatch_run (cohere_abatch_call second_fails no_time no_time) three_conversations
       \<lparr>sem_value = 2, tasks = [Waiting, Waiting, Waiting], first_raised = None\<rparr>
       [Acquire 0, Acquire 1, Finish 1, Acquire 2] =
     Some \<lparr>sem_value = 0, tasks = [InFlight, Raised HTTPStatusError, InFlight],
           first_raised = Some HTTPStatusError\<rparr>
   \<and> in_flight (\<lparr>sem_value = 0, tasks = [InFlight, Raised HTTPStatusError, InFlight],
           first_raised = Some HTTPStatusError\<rparr> :: int conversation batch) \<le> 2
   \<and> abatch_run (cohere_abatch_call second_fails no_time no_time) three_conversations
       \<lparr>sem_value = 2, tasks = [Waiting, Waiting, Waiting], first_raised = None\<rparr>
       [Acquire 0, Acquire 1, Acquire 2] = None"
proof -
  let ?init = "\<lparr>sem_value = 2, tasks = [Waiting, Waiting, Waiting], first_raised = None\<rparr>
    :: int conversation batch"
  let ?final = "\<lparr>sem_value = 0, tasks = [InFlight, Raised HTTPStatusError, InFlight],
           first_raised = Some HTTPStatusError\<rparr> :: int conversation batch"
  have start: "abatch_start 2 three_conversations = Inr ?init"
    by (simp add: abatch_start_def three_conversations_def)
  have run: "abatch_run (cohere_abatch_call second_fails no_time no_time) three_conversations
       ?init [Acquire 0, Acquire 1, Finish 1, Acquire 2] = Some ?final"
    by (simp add: three_conversations_def cohere_abatch_call_second_fails)
  have blocked: "abatch_run (cohere_abatch_call second_fails no_time no_time)
       three_conversations ?init [Acquire 0, Acquire 1, Acquire 2] = None"
    by simp
  from abatch_in_flight_bounded [OF start run] have bound: "in_flight ?final \<le> 2" by simp
  show ?thesis by (intro conjI start run bound blocked)
qed

end
